theory Spec2Isabelle
  imports Main
begin

section \<open>Values, documents and queries\<close>

text \<open>
  The values a post document can hold. A Firestore timestamp is represented by its
  position on the time line (an integer), a number by an integer (view counts).
  \<open>JUndefined\<close> is what reading a missing property yields in JavaScript.
\<close>

datatype jsval = JUndefined | JNull | JStr string | JNum int | JTimestamp int

text \<open>A plain JavaScript object: its properties in insertion order.\<close>

type_synonym jsobject = "(string \<times> jsval) list"

text \<open>\<open>obj.k\<close>: the property, or \<open>undefined\<close> when the object has none of that name.\<close>

definition js_get :: "jsobject \<Rightarrow> string \<Rightarrow> jsval" where
  "js_get obj k = (case map_of obj k of None \<Rightarrow> JUndefined | Some v \<Rightarrow> v)"

text \<open>
  A \<open>QueryDocumentSnapshot\<close>: the store's handle of one document, exposing the opaque
  identifier (\<open>doc.id\<close>) and the field mapping (\<open>doc.data()\<close>).
\<close>

record rawdoc =
  doc_id :: string
  doc_data :: jsobject

datatype direction = Asc | Desc

text \<open>
  The query constraints the repository builds: \<open>where(field, "==", value)\<close>,
  \<open>orderBy(field, direction)\<close>, \<open>startAfter(snapshot)\<close> and \<open>limit(n)\<close>.
\<close>

datatype constraint =
    WhereEq string jsval
  | OrderBy string direction
  | StartAfter rawdoc
  | Limit int

text \<open>\<open>query(collection, ...constraints)\<close>: a collection name and the constraints in order.\<close>

record query =
  q_collection :: string
  q_constraints :: "constraint list"

definition POSTS_COLLECTION :: string where
  "POSTS_COLLECTION = ''posts''"

section \<open>The document store as the repository sees it\<close>

text \<open>
  Modelled from the spec: the Document Store Client (the Firestore SDK, an external
  collaborator that is not part of the sources). Section 6 of the spec gives
  \<open>execute(QueryHandle)\<close> as returning an ordered sequence of raw documents, and section
  7 says a request can fail with a store error. The store is a response function (how
  it answers each query: an error, or the documents in order) together with the log of
  the queries it has been sent. A fixed response function is a store without
  concurrent writes. The errors are the store's own and are kept abstract; an error
  the SDK raises for a query it refuses (section 4.1 names query-construction errors
  with the transport errors) is one of them.
\<close>

record 'e store =
  respond :: "query \<Rightarrow> 'e + rawdoc list"
  issued :: "query list"

text \<open>
  Modelled from the spec: \<open>getDocs\<close> of the Firestore SDK as one round trip to the store
  (section 5: exactly one round trip per fetch). It appends the query to the log and
  returns the store's answer.
\<close>

definition getDocs :: "query \<Rightarrow> 'e store \<Rightarrow> ('e + rawdoc list) \<times> 'e store" where
  "getDocs q st = (respond st q, st\<lparr>issued := issued st @ [q]\<rparr>)"

section \<open>JavaScript list primitives used by the repository\<close>

text \<open>
  \<open>xs.slice(0, e)\<close> for an integer \<open>e\<close>: a negative end counts from the end of the
  array, and the end is clamped to the array.
\<close>

definition js_slice0 :: "'a list \<Rightarrow> int \<Rightarrow> 'a list" where
  "js_slice0 xs e =
     (let n = int (length xs);
          k = (if e < 0 then max (n + e) 0 else min e n)
      in take (nat k) xs)"

text \<open>
  JavaScript truthiness of a \<open>Category | null\<close> value: \<open>null\<close> and \<open>undefined\<close>
  (both \<open>None\<close> here) and the empty string are falsy, every other string is truthy.
\<close>

definition truthy :: "string option \<Rightarrow> bool" where
  "truthy c = (case c of None \<Rightarrow> False | Some s \<Rightarrow> s \<noteq> [])"

section \<open>getPosts, in both files\<close>

text \<open>
  \<open>src/lib/posts.ts\<close>, lines 42-65: the query is built on \<open>collection(db, POSTS_COLLECTION)\<close>
  with one descending sort on \<open>createdAt\<close>; every document becomes an object literal of
  nine properties. A failed \<open>getDocs\<close> rejects the promise with the store's error.
\<close>

definition getPosts :: "'e store \<Rightarrow> ('e + jsobject list) \<times> 'e store" where
  "getPosts st =
     (let q = \<lparr>q_collection = POSTS_COLLECTION, q_constraints = [OrderBy ''createdAt'' Desc]\<rparr>;
          (querySnapshot, st') = getDocs q st
      in case querySnapshot of
           Inl err \<Rightarrow> (Inl err, st')
         | Inr docs \<Rightarrow>
             (Inr (map (\<lambda>doc.
                     let data = doc_data doc
                     in [(''id'', JStr (doc_id doc)),
                         (''title'', js_get data ''title''),
                         (''category'', js_get data ''category''),
                         (''createdAt'', js_get data ''createdAt''),
                         (''authorId'', js_get data ''authorId''),
                         (''authorEmail'', js_get data ''authorEmail''),
                         (''authorDisplayName'', js_get data ''authorDisplayName''),
                         (''viewCount'', js_get data ''viewCount''),
                         (''thumbnailUrl'', js_get data ''thumbnailUrl'')]) docs), st'))"

text \<open>
  \<open>src/lib/posts copy 1.ts\<close>, lines 53-71: the same function in the newer file, where the
  collection reference is the module constant \<open>postsCollection\<close>.
\<close>

definition postsCollection :: string where
  "postsCollection = POSTS_COLLECTION"

definition getPosts_copy1 :: "'e store \<Rightarrow> ('e + jsobject list) \<times> 'e store" where
  "getPosts_copy1 st =
     (let q = \<lparr>q_collection = postsCollection, q_constraints = [OrderBy ''createdAt'' Desc]\<rparr>;
          (querySnapshot, st') = getDocs q st
      in case querySnapshot of
           Inl err \<Rightarrow> (Inl err, st')
         | Inr docs \<Rightarrow>
             (Inr (map (\<lambda>docSnap.
                     let data = doc_data docSnap
                     in [(''id'', JStr (doc_id docSnap)),
                         (''title'', js_get data ''title''),
                         (''category'', js_get data ''category''),
                         (''createdAt'', js_get data ''createdAt''),
                         (''authorId'', js_get data ''authorId''),
                         (''authorEmail'', js_get data ''authorEmail''),
                         (''authorDisplayName'', js_get data ''authorDisplayName''),
                         (''viewCount'', js_get data ''viewCount''),
                         (''thumbnailUrl'', js_get data ''thumbnailUrl'')]) docs), st'))"

section \<open>getPostsWithOptions\<close>

text \<open>
  \<open>GetPostsOptions\<close>: every property is optional. \<open>None\<close> stands for an absent property
  and, for \<open>category\<close> and \<open>lastDoc\<close>, also for \<open>null\<close> (the destructuring default of both
  is \<open>null\<close>). \<open>limitCount\<close> is a JavaScript number; the integers are modelled.
\<close>

record GetPostsOptions =
  opt_category :: "string option"
  opt_limitCount :: "int option"
  opt_lastDoc :: "rawdoc option"

record GetPostsResult =
  posts :: "jsobject list"
  lastDoc :: "rawdoc option"
  hasMore :: bool

text \<open>The destructuring default \<open>limitCount = 5\<close> (line 160).\<close>

definition limitCount_of :: "GetPostsOptions \<Rightarrow> int" where
  "limitCount_of options = (case opt_limitCount options of None \<Rightarrow> 5 | Some n \<Rightarrow> n)"

text \<open>
  Lines 160-182: the constraint array, pushed to in this order, and the query. The sum
  \<open>limitCount + 1\<close> of line 179 is read here as the sum of integers, which is what
  JavaScript computes whenever \<open>limitCount\<close> is at least \<open>-2^53\<close> and below \<open>2^53\<close>; the
  section on the bound in JavaScript's numbers reads it for every number.
\<close>

definition getPostsWithOptions_query :: "GetPostsOptions \<Rightarrow> query" where
  "getPostsWithOptions_query options =
     (let category = opt_category options;
          limitCount = limitCount_of options;
          lastDoc = opt_lastDoc options;
          constraints = [];
          constraints = (case category of
                           Some c \<Rightarrow> if truthy category
                                     then constraints @ [WhereEq ''category'' (JStr c)]
                                     else constraints
                         | None \<Rightarrow> constraints);
          constraints = constraints @ [OrderBy ''createdAt'' Desc];
          constraints = (case lastDoc of
                           Some d \<Rightarrow> constraints @ [StartAfter d]
                         | None \<Rightarrow> constraints);
          constraints = constraints @ [Limit (limitCount + 1)]
      in \<lparr>q_collection = postsCollection, q_constraints = constraints\<rparr>)"

text \<open>
  Lines 191-202: the arrow function mapped over the page's documents. Its object literal
  has six properties; the comment of line 200 says that \<open>authorId\<close>, \<open>viewCount\<close> and
  \<open>thumbnailUrl\<close> can be added if needed, as \<open>getPosts\<close> has them.
\<close>

definition getPostsWithOptions_post :: "rawdoc \<Rightarrow> jsobject" where
  "getPostsWithOptions_post doc =
     (let data = doc_data doc
      in [(''id'', JStr (doc_id doc)),
          (''title'', js_get data ''title''),
          (''category'', js_get data ''category''),
          (''authorEmail'', js_get data ''authorEmail''),
          (''authorDisplayName'', js_get data ''authorDisplayName''),
          (''createdAt'', js_get data ''createdAt'')])"

text \<open>
  Lines 157-209. An awaited \<open>getDocs\<close> that rejects makes the function reject with the
  same error: there is no \<open>try\<close> around it.
\<close>

definition getPostsWithOptions ::
  "GetPostsOptions \<Rightarrow> 'e store \<Rightarrow> ('e + GetPostsResult) \<times> 'e store" where
  "getPostsWithOptions options st =
     (let limitCount = limitCount_of options;
          q = getPostsWithOptions_query options;
          (snapshot, st') = getDocs q st
      in case snapshot of
           Inl err \<Rightarrow> (Inl err, st')
         | Inr snapshot_docs \<Rightarrow>
             (let hasMore = (int (length snapshot_docs) > limitCount);
                  docs = (if hasMore then js_slice0 snapshot_docs limitCount else snapshot_docs);
                  posts = map getPostsWithOptions_post docs
              in (Inr \<lparr>posts = posts,
                       lastDoc = (if length docs > 0 then Some (docs ! (length docs - 1)) else None),
                       hasMore = hasMore\<rparr>, st')))"

section \<open>The bound in JavaScript's numbers\<close>

text \<open>
  A JavaScript number is a double; \<open>limitCount\<close> is modelled where it is an integer. A
  double has a significand of 53 bits: for a natural number, \<open>excess_bits\<close> is how many
  low bits it has beyond 53.
\<close>

function excess_bits :: "nat \<Rightarrow> nat" where
  "excess_bits a = (if a < 2 ^ 53 then 0 else Suc (excess_bits (a div 2)))"
  by pat_completeness auto
termination
  by (relation "measure id") auto

declare excess_bits.simps [simp del]

text \<open>
  The double nearest to an integer, a tie going to the even significand (the rounding
  of every arithmetic operation on numbers). Integers of at most \<open>2^53\<close> in magnitude are
  doubles themselves. (From \<open>2^1024 - 2^970\<close> on a number rounds to \<open>Infinity\<close>, which is
  not modelled; adding 1 to a double never gets there.)
\<close>

definition js_round :: "int \<Rightarrow> int" where
  "js_round m =
     (let a = nat \<bar>m\<bar>;
          p = 2 ^ excess_bits a;
          q = a div p;
          r = a mod p;
          q' = (if p < 2 * r \<or> (2 * r = p \<and> odd q) then q + 1 else q)
      in sgn m * int (q' * p))"

text \<open>\<open>x + y\<close> on two integer-valued numbers: the exact sum, rounded.\<close>

definition js_add :: "int \<Rightarrow> int \<Rightarrow> int" where
  "js_add x y = js_round (x + y)"

text \<open>
  Lines 160-182 again, with the sum of line 179 taken in JavaScript's numbers.
\<close>

definition getPostsWithOptions_number_query :: "GetPostsOptions \<Rightarrow> query" where
  "getPostsWithOptions_number_query options =
     (let category = opt_category options;
          limitCount = limitCount_of options;
          lastDoc = opt_lastDoc options;
          constraints = [];
          constraints = (case category of
                           Some c \<Rightarrow> if truthy category
                                     then constraints @ [WhereEq ''category'' (JStr c)]
                                     else constraints
                         | None \<Rightarrow> constraints);
          constraints = constraints @ [OrderBy ''createdAt'' Desc];
          constraints = (case lastDoc of
                           Some d \<Rightarrow> constraints @ [StartAfter d]
                         | None \<Rightarrow> constraints);
          constraints = constraints @ [Limit (js_add limitCount 1)]
      in \<lparr>q_collection = postsCollection, q_constraints = constraints\<rparr>)"

text \<open>Lines 157-209 again, issuing that query.\<close>

definition getPostsWithOptions_number ::
  "GetPostsOptions \<Rightarrow> 'e store \<Rightarrow> ('e + GetPostsResult) \<times> 'e store" where
  "getPostsWithOptions_number options st =
     (let limitCount = limitCount_of options;
          q = getPostsWithOptions_number_query options;
          (snapshot, st') = getDocs q st
      in case snapshot of
           Inl err \<Rightarrow> (Inl err, st')
         | Inr snapshot_docs \<Rightarrow>
             (let hasMore = (int (length snapshot_docs) > limitCount);
                  docs = (if hasMore then js_slice0 snapshot_docs limitCount else snapshot_docs);
                  posts = map getPostsWithOptions_post docs
              in (Inr \<lparr>posts = posts,
                       lastDoc = (if length docs > 0 then Some (docs ! (length docs - 1)) else None),
                       hasMore = hasMore\<rparr>, st')))"

section \<open>What the store's queries match\<close>

text \<open>
  How the Document Store Client (the Firestore SDK, not part of the sources) evaluates
  a query is taken from the spec. Section 6 lists the constraints: an equality filter
  on a named field, a descending or ascending sort on a named field, resuming after a
  given document handle, and a maximum result count; the glossary says that a cursor
  refers to a document's position within the sorted query result and resumes the scan
  after that position.
\<close>

text \<open>
  Modelled from the spec: the sort key of a field value of the store (absent from the
  sources), timestamps and numbers by their value. (How the store orders values of
  other kinds is not said in the spec; they share one key.)
\<close>

definition sort_rank :: "jsval \<Rightarrow> int" where
  "sort_rank v = (case v of JTimestamp t \<Rightarrow> t | JNum n \<Rightarrow> n | _ \<Rightarrow> 0)"

text \<open>
  Modelled from the spec: the effect of one constraint on the store's candidate
  documents (the store's query engine is absent from the sources). The equality filter
  keeps the documents whose field is the value; a sort orders by the field's key; a
  cursor resumes after the position of its document; a bound keeps the first \<open>n\<close>.
\<close>

fun apply_constraint :: "constraint \<Rightarrow> rawdoc list \<Rightarrow> rawdoc list" where
  "apply_constraint (WhereEq f v) ds = filter (\<lambda>d. js_get (doc_data d) f = v) ds"
| "apply_constraint (OrderBy f Asc) ds = sort_key (\<lambda>d. sort_rank (js_get (doc_data d) f)) ds"
| "apply_constraint (OrderBy f Desc) ds =
     rev (sort_key (\<lambda>d. sort_rank (js_get (doc_data d) f)) ds)"
| "apply_constraint (StartAfter c) ds = drop 1 (dropWhile (\<lambda>d. doc_id d \<noteq> doc_id c) ds)"
| "apply_constraint (Limit n) ds = take (nat n) ds"

text \<open>
  Modelled from the spec: the documents a query matches in a collection (the store's
  \<open>execute\<close>, absent from the sources), by applying the constraints in the order they were
  given. (A cursor whose document is not in the sorted result resumes after
  the end here; the spec leaves that case to the store, and nothing below rests on it.)
\<close>

definition run_query :: "rawdoc list \<Rightarrow> query \<Rightarrow> rawdoc list" where
  "run_query coll q = foldl (\<lambda>ds c. apply_constraint c ds) coll (q_constraints q)"

section \<open>The store's change notifications\<close>

text \<open>
  Modelled from the spec: the change-notification side of the Document Store Client
  (\<open>onSnapshot\<close> of the Firestore SDK, not part of the sources). Section 6 of the spec:
  \<open>subscribe(QueryHandle, onChange)\<close> invokes \<open>onChange\<close> with the full current matching
  set on registration and on every subsequent change of that set, and returns a handle
  whose one operation \<open>cancel()\<close> unregisters the standing query.

  A registered listener has its cancel handle, its standing query and its handler. A
  handler is given by the calls it makes when it receives a snapshot: which callback,
  with which argument. The store keeps the post collection, the listeners, the next
  free handle and the trace of all callback invocations so far, each tagged with the
  subscription whose snapshot caused it.
\<close>

record 'c listener =
  l_handle :: nat
  l_query :: query
  l_onNext :: "rawdoc list \<Rightarrow> ('c \<times> jsobject list) list"

record 'c firestore =
  fs_docs :: "rawdoc list"
  fs_listeners :: "'c listener list"
  fs_next :: nat
  fs_trace :: "(nat \<times> 'c \<times> jsobject list) list"

text \<open>
  Modelled from the spec: the store delivers to a listener the full current matching
  set of its standing query (the SDK's delivery is absent from the sources); the
  listener's handler runs on it and its callback invocations are appended to the trace.
\<close>

definition deliver :: "'c listener \<Rightarrow> 'c firestore \<Rightarrow> 'c firestore" where
  "deliver l fs =
     fs\<lparr>fs_trace := fs_trace fs @
          map (Pair (l_handle l)) (l_onNext l (run_query (fs_docs fs) (l_query l)))\<rparr>"

text \<open>
  Modelled from the spec: \<open>onSnapshot\<close> (absent from the sources) registers the listener
  under a fresh handle, delivers the current matching set to it at once, and returns
  the handle for cancelling.
\<close>

definition onSnapshot ::
  "query \<Rightarrow> (rawdoc list \<Rightarrow> ('c \<times> jsobject list) list) \<Rightarrow> 'c firestore \<Rightarrow> nat \<times> 'c firestore" where
  "onSnapshot q onNext fs =
     (let l = \<lparr>l_handle = fs_next fs, l_query = q, l_onNext = onNext\<rparr>
      in (fs_next fs,
          deliver l (fs\<lparr>fs_listeners := fs_listeners fs @ [l], fs_next := Suc (fs_next fs)\<rparr>)))"

text \<open>
  Modelled from the spec: the function that \<open>onSnapshot\<close> returns (absent from the
  sources), applied: it unregisters the standing query of that handle.
\<close>

definition unsubscribe :: "nat \<Rightarrow> 'c firestore \<Rightarrow> 'c firestore" where
  "unsubscribe h fs = fs\<lparr>fs_listeners := filter (\<lambda>l. l_handle l \<noteq> h) (fs_listeners fs)\<rparr>"

text \<open>
  Modelled from the spec: a change of the collection (the store's change notification
  is absent from the sources). A write replaces the collection's content; every
  listener whose matching set changed receives the new snapshot, in registration order.
\<close>

definition store_write :: "rawdoc list \<Rightarrow> 'c firestore \<Rightarrow> 'c firestore" where
  "store_write docs' fs =
     foldl (\<lambda>s l. deliver l s) (fs\<lparr>fs_docs := docs'\<rparr>)
       (filter (\<lambda>l. run_query docs' (l_query l) \<noteq> run_query (fs_docs fs) (l_query l))
          (fs_listeners fs))"

section \<open>subscribeToPostsRealtime\<close>

text \<open>The options of \<open>subscribeToPostsRealtime\<close> (line 212), with \<open>None\<close> as above.\<close>

record SubscribeOptions =
  sub_category :: "string option"
  sub_limitCount :: "int option"

text \<open>Lines 214-225: the standing query. The default of \<open>limitCount\<close> is 20.\<close>

definition subscribeToPostsRealtime_query :: "SubscribeOptions \<Rightarrow> query" where
  "subscribeToPostsRealtime_query options =
     (let category = sub_category options;
          limitCount = (case sub_limitCount options of None \<Rightarrow> 20 | Some n \<Rightarrow> n);
          constraints = [];
          constraints = (case category of
                           Some c \<Rightarrow> if truthy category
                                     then constraints @ [WhereEq ''category'' (JStr c)]
                                     else constraints
                         | None \<Rightarrow> constraints);
          constraints = constraints @ [OrderBy ''createdAt'' Desc];
          constraints = constraints @ [Limit limitCount]
      in \<lparr>q_collection = postsCollection, q_constraints = constraints\<rparr>)"

text \<open>Lines 229-239: the arrow function mapped over a snapshot's documents.\<close>

definition subscribeToPostsRealtime_post :: "rawdoc \<Rightarrow> jsobject" where
  "subscribeToPostsRealtime_post doc =
     (let data = doc_data doc
      in [(''id'', JStr (doc_id doc)),
          (''title'', js_get data ''title''),
          (''category'', js_get data ''category''),
          (''authorEmail'', js_get data ''authorEmail''),
          (''authorDisplayName'', js_get data ''authorDisplayName''),
          (''createdAt'', js_get data ''createdAt'')])"

text \<open>
  Lines 210-243: the listener registered with \<open>onSnapshot\<close> maps the snapshot's documents and
  calls \<open>callback\<close> once with the result; what \<open>onSnapshot\<close> returns is returned as the
  cancellation function (here: the handle that \<open>unsubscribe\<close> takes).
\<close>

definition subscribeToPostsRealtime ::
  "'c \<Rightarrow> SubscribeOptions \<Rightarrow> 'c firestore \<Rightarrow> nat \<times> 'c firestore" where
  "subscribeToPostsRealtime callback options fs =
     (let q = subscribeToPostsRealtime_query options
      in onSnapshot q
           (\<lambda>snapshot_docs.
              let posts = map subscribeToPostsRealtime_post snapshot_docs
              in [(callback, posts)])
           fs)"

section \<open>Histories of a store with subscriptions\<close>

text \<open>
  Modelled from the spec: what can happen to the store after some point (the callers
  are absent from the sources). A caller subscribes, a caller invokes the cancellation
  function of a subscription, or the collection is written to.
\<close>

datatype 'c event =
    Subscribe 'c SubscribeOptions
  | Cancel nat
  | Write "rawdoc list"

fun step :: "'c firestore \<Rightarrow> 'c event \<Rightarrow> 'c firestore" where
  "step fs (Subscribe callback options) = snd (subscribeToPostsRealtime callback options fs)"
| "step fs (Cancel h) = unsubscribe h fs"
| "step fs (Write docs') = store_write docs' fs"

definition run :: "'c event list \<Rightarrow> 'c firestore \<Rightarrow> 'c firestore" where
  "run evs fs = foldl step fs evs"

text \<open>The callback invocations caused by subscription \<open>h\<close>, and by all the others.\<close>

definition calls_of :: "nat \<Rightarrow> 'c firestore \<Rightarrow> ('c \<times> jsobject list) list" where
  "calls_of h fs = map snd (filter (\<lambda>e. fst e = h) (fs_trace fs))"

definition calls_except :: "nat \<Rightarrow> 'c firestore \<Rightarrow> (nat \<times> 'c \<times> jsobject list) list" where
  "calls_except h fs = filter (\<lambda>e. fst e \<noteq> h) (fs_trace fs)"

text \<open>Handles are handed out in increasing order: every registered one is below the next.\<close>

definition handles_ok :: "'c firestore \<Rightarrow> bool" where
  "handles_ok fs = list_all (\<lambda>l. l_handle l < fs_next fs) (fs_listeners fs)"

section \<open>Walking the pages\<close>

text \<open>
  Modelled from the spec: a store over a fixed post collection (the store is absent
  from the sources), answering every query with the documents it matches: no failures
  and no concurrent writes.
\<close>

definition fixed_store :: "rawdoc list \<Rightarrow> 'e store" where
  "fixed_store coll = \<lparr>respond = (\<lambda>q. Inr (run_query coll q)), issued = []\<rparr>"

text \<open>
  Modelled from the spec: the walk of the chaining property of section 8 (the caller's
  loop is absent from the sources). Call \<open>getPostsWithOptions\<close>, and while the response
  has \<open>hasMore\<close>, call again with the response's \<open>lastDoc\<close> as the cursor. The walk need
  not end, so it runs on fuel: \<open>None\<close> means the fuel ran out before a response had
  \<open>hasMore = false\<close>.
\<close>

fun walk :: "nat \<Rightarrow> GetPostsOptions \<Rightarrow> 'e store \<Rightarrow> ('e + GetPostsResult list) option" where
  "walk 0 options st = None"
| "walk (Suc fuel) options st =
     (case getPostsWithOptions options st of
        (Inl err, st') \<Rightarrow> Some (Inl err)
      | (Inr page, st') \<Rightarrow>
          if hasMore page
          then (case walk fuel (options\<lparr>opt_lastDoc := lastDoc page\<rparr>) st' of
                  None \<Rightarrow> None
                | Some (Inl err) \<Rightarrow> Some (Inl err)
                | Some (Inr pages) \<Rightarrow> Some (Inr (page # pages)))
          else Some (Inr [page]))"

text \<open>
  Modelled from the spec: the sort key of a post in the store's order, the rank of its
  \<open>createdAt\<close> field (section 3: the sole sort key).
\<close>

definition createdAt_rank :: "rawdoc \<Rightarrow> int" where
  "createdAt_rank d = sort_rank (js_get (doc_data d) ''createdAt'')"

text \<open>
  Modelled from the spec: whether a document is in the matching set of a category
  filter (section 8: only documents whose \<open>category\<close> equals the filter value). Every
  document is when no filter is in force (no category, or the empty string, which
  line 166 takes for none), else those whose \<open>category\<close> field is the filter's tag.
\<close>

definition matches :: "string option \<Rightarrow> rawdoc \<Rightarrow> bool" where
  "matches category d =
     (case category of
        None \<Rightarrow> True
      | Some c \<Rightarrow> if c = [] then True else js_get (doc_data d) ''category'' = JStr c)"

text \<open>
  Modelled from the spec: the matching set of a category filter in a collection, as
  the store orders it (descending \<open>createdAt\<close>, newest first).
\<close>

definition matching_docs :: "rawdoc list \<Rightarrow> string option \<Rightarrow> rawdoc list" where
  "matching_docs coll category = rev (sort_key createdAt_rank (filter (matches category) coll))"

text \<open>
  Modelled from the spec: where the store's scan resumes, at the start without a
  cursor, else after the position of the cursor's document.
\<close>

definition resume :: "rawdoc option \<Rightarrow> rawdoc list \<Rightarrow> rawdoc list" where
  "resume cursor ds =
     (case cursor of
        None \<Rightarrow> ds
      | Some c \<Rightarrow> drop 1 (dropWhile (\<lambda>d. doc_id d \<noteq> doc_id c) ds))"

section \<open>Auxiliary notions for subscriptions\<close>

text \<open>The trace entries of delivering the snapshots of a collection to a list of listeners.\<close>

definition deliveries :: "rawdoc list \<Rightarrow> 'c listener list \<Rightarrow> (nat \<times> 'c \<times> jsobject list) list" where
  "deliveries docs ls =
     concat (map (\<lambda>l. map (Pair (l_handle l)) (l_onNext l (run_query docs (l_query l)))) ls)"

text \<open>
  A handle that has been handed out and has no listener registered (any more).
\<close>

definition silenced :: "nat \<Rightarrow> 'c firestore \<Rightarrow> bool" where
  "silenced h fs = (h < fs_next fs \<and> list_all (\<lambda>l. l_handle l \<noteq> h) (fs_listeners fs))"

text \<open>
  Two stores that differ only in that the first has no listener of handle \<open>h\<close>, and in what
  subscription \<open>h\<close> was called with.
\<close>

definition same_but :: "nat \<Rightarrow> 'c firestore \<Rightarrow> 'c firestore \<Rightarrow> bool" where
  "same_but h fs' fs =
     (fs_docs fs' = fs_docs fs \<and> fs_next fs' = fs_next fs \<and> h < fs_next fs
      \<and> fs_listeners fs' = filter (\<lambda>l. l_handle l \<noteq> h) (fs_listeners fs)
      \<and> calls_except h fs' = calls_except h fs)"

section \<open>What a listing item is\<close>

text \<open>
  The fields of a \<open>PostSummary\<close> in the data model, and what it is for an object to be the
  \<open>PostSummary\<close> of a raw document: it has each of these properties, \<open>id\<close> holding the
  document's identifier and every other one holding the document's field of that name.
\<close>

definition PostSummary_fields :: "string list" where
  "PostSummary_fields =
     [''id'', ''title'', ''category'', ''createdAt'', ''authorId'', ''authorEmail'',
      ''authorDisplayName'', ''viewCount'', ''thumbnailUrl'']"

definition is_PostSummary_of :: "rawdoc \<Rightarrow> jsobject \<Rightarrow> bool" where
  "is_PostSummary_of d p =
     list_all (\<lambda>k. map_of p k = Some (if k = ''id'' then JStr (doc_id d) else js_get (doc_data d) k))
       PostSummary_fields"

text \<open>
  The six properties of a listing item, and what it is for an object to be the listing
  item of a raw document: it has exactly these properties, in this order, with \<open>id\<close>
  holding the document's identifier and every other one the document's field of that
  name.
\<close>

definition listing_fields :: "string list" where
  "listing_fields =
     [''id'', ''title'', ''category'', ''authorEmail'', ''authorDisplayName'', ''createdAt'']"

definition is_listing_item_of :: "rawdoc \<Rightarrow> jsobject \<Rightarrow> bool" where
  "is_listing_item_of d p =
     (map fst p = listing_fields \<and>
      list_all (\<lambda>k. map_of p k = Some (if k = ''id'' then JStr (doc_id d) else js_get (doc_data d) k))
        listing_fields)"

section \<open>Example data\<close>

text \<open>Three posts, a store that gives one fixed answer, and options with a page size.\<close>

definition example_post :: "string \<Rightarrow> string \<Rightarrow> int \<Rightarrow> rawdoc" where
  "example_post i c t =
     \<lparr>doc_id = i,
      doc_data = [(''title'', JStr (''Post '' @ i)), (''category'', JStr c),
                  (''createdAt'', JTimestamp t), (''authorId'', JStr ''u1''),
                  (''authorEmail'', JStr ''u1@example.org''), (''authorDisplayName'', JNull),
                  (''viewCount'', JNum 0), (''thumbnailUrl'', JNull)]\<rparr>"

definition doc_a :: rawdoc where
  "doc_a = example_post ''a'' ''tech'' 30"

definition doc_b :: rawdoc where
  "doc_b = example_post ''b'' ''tech'' 20"

definition doc_c :: rawdoc where
  "doc_c = example_post ''c'' ''life'' 10"

definition answering :: "(unit + rawdoc list) \<Rightarrow> unit store" where
  "answering a = \<lparr>respond = (\<lambda>q. a), issued = []\<rparr>"

definition options_of :: "int option \<Rightarrow> GetPostsOptions" where
  "options_of n = \<lparr>opt_category = None, opt_limitCount = n, opt_lastDoc = None\<rparr>"

definition fs_init :: "rawdoc list \<Rightarrow> string firestore" where
  "fs_init docs = \<lparr>fs_docs = docs, fs_listeners = [], fs_next = 0, fs_trace = []\<rparr>"

definition subscribe_options_of :: "string option \<Rightarrow> int option \<Rightarrow> SubscribeOptions" where
  "subscribe_options_of c n = \<lparr>sub_category = c, sub_limitCount = n\<rparr>"

section \<open>One call of getPostsWithOptions\<close>

lemma getPostsWithOptions_Inr:
  assumes "respond st (getPostsWithOptions_query options) = Inr ds"
  shows "getPostsWithOptions options st =
     (let hm = (int (length ds) > limitCount_of options);
          docs = (if hm then js_slice0 ds (limitCount_of options) else ds)
      in (Inr \<lparr>posts = map getPostsWithOptions_post docs,
               lastDoc = (if docs = [] then None else Some (last docs)),
               hasMore = hm\<rparr>,
          st\<lparr>issued := issued st @ [getPostsWithOptions_query options]\<rparr>))"
  using assms by (simp add: getPostsWithOptions_def getDocs_def Let_def last_conv_nth)

lemma getPostsWithOptions_Inl:
  assumes "respond st (getPostsWithOptions_query options) = Inl e"
  shows "getPostsWithOptions options st =
     (Inl e, st\<lparr>issued := issued st @ [getPostsWithOptions_query options]\<rparr>)"
  using assms by (simp add: getPostsWithOptions_def getDocs_def Let_def)

lemma js_slice0_nonneg: "0 \<le> e \<Longrightarrow> js_slice0 xs e = take (nat e) xs"
  by (simp add: js_slice0_def Let_def min_def)

lemma js_slice0_take: "js_slice0 xs e = take (length (js_slice0 xs e)) xs"
  by (simp add: js_slice0_def Let_def)

lemma js_slice0_length: "length (js_slice0 xs e) \<le> length xs"
  by (simp add: js_slice0_def Let_def)

lemma take_last_nth: "k \<le> length xs \<Longrightarrow> 0 < k \<Longrightarrow> last (take k xs) = xs ! (k - 1)"
proof -
  assume k: "k \<le> length xs" "0 < k"
  then have ne: "take k xs \<noteq> []" by auto
  have "last (take k xs) = take k xs ! (length (take k xs) - 1)"
    using ne by (rule last_conv_nth)
  also have "\<dots> = take k xs ! (k - 1)" using k by (simp add: min_def)
  also have "\<dots> = xs ! (k - 1)" using k by simp
  finally show ?thesis .
qed

text \<open>
  Claim C1. For a page size of at least 1, when the store answers the issued query with
  the documents \<open>ds\<close>, the call returns a result whose \<open>hasMore\<close> is
  \<open>length ds > pageSize\<close>, and whose items are the first \<open>pageSize\<close> documents of \<open>ds\<close> when
  \<open>hasMore\<close> holds and all of \<open>ds\<close> otherwise, each normalized; so there are at most
  \<open>pageSize\<close> items. (This holds however many documents the store returns, so also when
  it keeps to the bound of \<open>pageSize + 1\<close>.)
\<close>

theorem getPostsWithOptions_page:
  assumes "1 \<le> limitCount_of options"
    and "respond st (getPostsWithOptions_query options) = Inr ds"
  shows "\<exists>r st'. getPostsWithOptions options st = (Inr r, st')
           \<and> hasMore r = (int (length ds) > limitCount_of options)
           \<and> posts r = map getPostsWithOptions_post
                (if hasMore r then take (nat (limitCount_of options)) ds else ds)
           \<and> int (length (posts r)) \<le> limitCount_of options"
  using assms by (auto simp add: getPostsWithOptions_Inr Let_def js_slice0_nonneg)

theorem getPostsWithOptions_page_witness:
  "1 \<le> limitCount_of (options_of (Some 2))
   \<and> respond (answering (Inr [doc_a, doc_b, doc_c]))
         (getPostsWithOptions_query (options_of (Some 2))) = Inr [doc_a, doc_b, doc_c]
   \<and> (\<exists>r st'. getPostsWithOptions (options_of (Some 2)) (answering (Inr [doc_a, doc_b, doc_c]))
                 = (Inr r, st')
           \<and> hasMore r = (int (length [doc_a, doc_b, doc_c]) > limitCount_of (options_of (Some 2)))
           \<and> posts r = map getPostsWithOptions_post
                (if hasMore r then take (nat (limitCount_of (options_of (Some 2)))) [doc_a, doc_b, doc_c]
                 else [doc_a, doc_b, doc_c])
           \<and> int (length (posts r)) \<le> limitCount_of (options_of (Some 2)))"
proof -
  have h1: "1 \<le> limitCount_of (options_of (Some 2))"
    by (simp add: limitCount_of_def options_of_def)
  have h2: "respond (answering (Inr [doc_a, doc_b, doc_c]))
         (getPostsWithOptions_query (options_of (Some 2))) = Inr [doc_a, doc_b, doc_c]"
    by (simp add: answering_def)
  from h1 h2 getPostsWithOptions_page [OF h1 h2] show ?thesis by blast
qed

text \<open>
  Claim C4. When the store answers with the documents \<open>ds\<close>, the returned \<open>lastDoc\<close> is
  \<open>null\<close> exactly when the items list is empty; the items are the normalized documents of
  a prefix of \<open>ds\<close>, and when there are any, \<open>lastDoc\<close> is the handle of the document
  behind the last item. When the store returns no document (and the page size is not
  negative) the result is \<open>{posts: [], lastDoc: null, hasMore: false}\<close>.
\<close>

theorem getPostsWithOptions_lastDoc:
  assumes "respond st (getPostsWithOptions_query options) = Inr ds"
  shows "\<exists>r st'. getPostsWithOptions options st = (Inr r, st')
           \<and> (lastDoc r = None \<longleftrightarrow> posts r = [])
           \<and> posts r = map getPostsWithOptions_post (take (length (posts r)) ds)
           \<and> (posts r \<noteq> [] \<longrightarrow> lastDoc r = Some (ds ! (length (posts r) - 1)))
           \<and> (ds = [] \<and> 0 \<le> limitCount_of options \<longrightarrow>
                 r = \<lparr>posts = [], lastDoc = None, hasMore = False\<rparr>)"
proof (cases "int (length ds) > limitCount_of options")
  case True
  let ?docs = "js_slice0 ds (limitCount_of options)"
  have len: "length ?docs \<le> length ds" by (rule js_slice0_length)
  have pre: "?docs = take (length ?docs) ds" by (rule js_slice0_take)
  have lst: "?docs \<noteq> [] \<Longrightarrow> last ?docs = ds ! (length ?docs - 1)"
    using take_last_nth [of "length ?docs" ds] len pre by simp
  from True have ne: "\<not> (ds = [] \<and> 0 \<le> limitCount_of options)" by auto
  show ?thesis
    using assms True pre lst ne by (simp add: getPostsWithOptions_Inr Let_def)
next
  case False
  have lst: "ds \<noteq> [] \<Longrightarrow> last ds = ds ! (length ds - 1)" by (simp add: last_conv_nth)
  show ?thesis
    using assms False lst by (auto simp add: getPostsWithOptions_Inr Let_def)
qed

theorem getPostsWithOptions_lastDoc_witness:
  "respond (answering (Inr [])) (getPostsWithOptions_query (options_of None)) = Inr []
   \<and> fst (getPostsWithOptions (options_of None) (answering (Inr [])))
       = Inr \<lparr>posts = [], lastDoc = None, hasMore = False\<rparr>
   \<and> fst (getPostsWithOptions (options_of (Some 2)) (answering (Inr [doc_a, doc_b, doc_c])))
       = Inr \<lparr>posts = map getPostsWithOptions_post [doc_a, doc_b], lastDoc = Some doc_b,
              hasMore = True\<rparr>"
proof -
  have h: "respond (answering (Inr [])) (getPostsWithOptions_query (options_of None)) = Inr []"
    by (simp add: answering_def)
  have e: "fst (getPostsWithOptions (options_of None) (answering (Inr [])))
       = Inr \<lparr>posts = [], lastDoc = None, hasMore = False\<rparr>"
    using getPostsWithOptions_lastDoc [OF h]
    by (auto simp add: limitCount_of_def options_of_def)
  have n: "fst (getPostsWithOptions (options_of (Some 2)) (answering (Inr [doc_a, doc_b, doc_c])))
       = Inr \<lparr>posts = map getPostsWithOptions_post [doc_a, doc_b], lastDoc = Some doc_b,
              hasMore = True\<rparr>"
    by (simp add: getPostsWithOptions_def getDocs_def answering_def limitCount_of_def
          options_of_def js_slice0_def Let_def)
  from h e n show ?thesis by blast
qed

lemma excess_bits_small: "a < 2 ^ 53 \<Longrightarrow> excess_bits a = 0"
  by (subst excess_bits.simps) simp

lemma excess_bits_2_53: "excess_bits (2 ^ 53) = 1"
  by (subst excess_bits.simps) (simp add: excess_bits_small)

lemma js_round_exact:
  assumes "\<bar>m\<bar> \<le> 2 ^ 53"
  shows "js_round m = m"
proof (cases "\<bar>m\<bar> = 2 ^ 53")
  case True
  then have a: "nat \<bar>m\<bar> = 2 ^ 53" by simp
  have "js_round m = sgn m * 2 ^ 53"
    unfolding js_round_def a Let_def excess_bits_2_53 by simp
  also have "\<dots> = m"
    using True by (cases "m < 0") (simp_all add: sgn_if)
  finally show ?thesis .
next
  case False
  with assms have "nat \<bar>m\<bar> < 2 ^ 53" by simp
  then have e: "excess_bits (nat \<bar>m\<bar>) = 0" by (rule excess_bits_small)
  show ?thesis
    unfolding js_round_def Let_def e by (simp add: sgn_if)
qed

lemma js_add_one_exact:
  "- (2 ^ 53) \<le> n \<Longrightarrow> n < 2 ^ 53 \<Longrightarrow> js_add n 1 = n + 1"
  unfolding js_add_def by (rule js_round_exact) simp

lemma js_add_2_53: "js_add 9007199254740992 1 = 9007199254740992"
proof -
  have e1: "excess_bits 9007199254740993 = Suc (excess_bits 4503599627370496)"
    by (subst excess_bits.simps) simp
  have e0: "excess_bits 4503599627370496 = 0"
    by (rule excess_bits_small) simp
  show ?thesis
    unfolding js_add_def js_round_def Let_def by (simp add: e1 e0)
qed

lemma js_add_2_53_2: "js_add 9007199254740994 1 = 9007199254740996"
proof -
  have e1: "excess_bits 9007199254740995 = Suc (excess_bits 4503599627370497)"
    by (subst excess_bits.simps) simp
  have e0: "excess_bits 4503599627370497 = 0"
    by (rule excess_bits_small) simp
  show ?thesis
    unfolding js_add_def js_round_def Let_def by (simp add: e1 e0)
qed

lemma getPostsWithOptions_number_agrees:
  assumes "- (2 ^ 53) \<le> limitCount_of options" and "limitCount_of options < 2 ^ 53"
  shows "getPostsWithOptions_number options st = getPostsWithOptions options st"
  using js_add_one_exact [OF assms]
  by (simp add: getPostsWithOptions_number_def getPostsWithOptions_def
        getPostsWithOptions_number_query_def getPostsWithOptions_query_def)

lemma getPostsWithOptions_number_issued:
  "issued (snd (getPostsWithOptions_number options st)) =
     issued st @ [getPostsWithOptions_number_query options]"
  by (cases "respond st (getPostsWithOptions_number_query options)")
     (simp_all add: getPostsWithOptions_number_def getDocs_def Let_def)

text \<open>
  Claim C5, as amended. For every options value whose \<open>limitCount\<close> (5 when not given)
  is at least \<open>-2^53\<close> and below \<open>2^53\<close>, and whatever the store's answer, a call adds
  exactly one query to the queries the store has been sent: over the post collection,
  with, in this order, an equality filter on \<open>category\<close> when a category is given (a
  non-empty tag; \<open>null\<close>, \<open>undefined\<close> and the empty string are none) and not otherwise,
  the descending sort on \<open>createdAt\<close>, \<open>startAfter\<close> of the cursor when one is given and
  not otherwise, and the bound \<open>limitCount + 1\<close>.
\<close>

theorem getPostsWithOptions_number_issues_one_query:
  assumes "- (2 ^ 53) \<le> (case opt_limitCount options of None \<Rightarrow> 5 | Some n \<Rightarrow> n)"
    and "(case opt_limitCount options of None \<Rightarrow> 5 | Some n \<Rightarrow> n) < 2 ^ 53"
  shows "issued (snd (getPostsWithOptions_number options st)) =
     issued st @
       [\<lparr>q_collection = ''posts'',
         q_constraints =
           (case opt_category options of
              None \<Rightarrow> []
            | Some c \<Rightarrow> if c = [] then [] else [WhereEq ''category'' (JStr c)])
           @ [OrderBy ''createdAt'' Desc]
           @ (case opt_lastDoc options of None \<Rightarrow> [] | Some d \<Rightarrow> [StartAfter d])
           @ [Limit ((case opt_limitCount options of None \<Rightarrow> 5 | Some n \<Rightarrow> n) + 1)]\<rparr>]"
proof -
  have ex: "js_add (case opt_limitCount options of None \<Rightarrow> 5 | Some n \<Rightarrow> n) 1
              = (case opt_limitCount options of None \<Rightarrow> 5 | Some n \<Rightarrow> n) + 1"
    using assms by (rule js_add_one_exact)
  have q: "getPostsWithOptions_number_query options =
       \<lparr>q_collection = ''posts'',
         q_constraints =
           (case opt_category options of
              None \<Rightarrow> []
            | Some c \<Rightarrow> if c = [] then [] else [WhereEq ''category'' (JStr c)])
           @ [OrderBy ''createdAt'' Desc]
           @ (case opt_lastDoc options of None \<Rightarrow> [] | Some d \<Rightarrow> [StartAfter d])
           @ [Limit (js_add (case opt_limitCount options of None \<Rightarrow> 5 | Some n \<Rightarrow> n) 1)]\<rparr>"
    by (simp add: getPostsWithOptions_number_query_def Let_def truthy_def limitCount_of_def
          postsCollection_def POSTS_COLLECTION_def split: option.splits)
  show ?thesis
    unfolding getPostsWithOptions_number_issued q ex by (rule refl)
qed

theorem getPostsWithOptions_number_issues_one_query_witness:
  "- (2 ^ 53) \<le> (case opt_limitCount (options_of None) of None \<Rightarrow> 5 | Some n \<Rightarrow> n)
   \<and> (case opt_limitCount (options_of None) of None \<Rightarrow> 5 | Some n \<Rightarrow> n) < 2 ^ 53
   \<and> issued (snd (getPostsWithOptions_number (options_of None) (answering (Inr [doc_a])))) =
       [\<lparr>q_collection = ''posts'',
         q_constraints = [OrderBy ''createdAt'' Desc, Limit 6]\<rparr>]"
proof -
  have h1: "- (2 ^ 53) \<le> (case opt_limitCount (options_of None) of None \<Rightarrow> 5 | Some n \<Rightarrow> n)"
    by (simp add: options_of_def)
  have h2: "(case opt_limitCount (options_of None) of None \<Rightarrow> 5 | Some n \<Rightarrow> n) < 2 ^ 53"
    by (simp add: options_of_def)
  from h1 h2 getPostsWithOptions_number_issues_one_query
               [OF h1 h2, of "answering (Inr [doc_a])"]
  show ?thesis
    by (simp add: options_of_def answering_def)
qed

text \<open>
  The claim C5 as first stated fails: it speaks of every options value, and with
  \<open>limitCount = 2^53\<close> the sum of line 179 is \<open>2^53\<close> again, so the query sent has the
  bound \<open>2^53\<close> and not \<open>2^53 + 1\<close>.
\<close>

theorem bound_is_rounded_counterexample:
  "issued (snd (getPostsWithOptions_number (options_of (Some 9007199254740992))
                  (answering (Inr [doc_a]))))
     = [\<lparr>q_collection = ''posts'',
         q_constraints = [OrderBy ''createdAt'' Desc, Limit 9007199254740992]\<rparr>]
   \<and> Limit 9007199254740992 \<noteq> Limit (9007199254740992 + 1)"
  unfolding getPostsWithOptions_number_issued
  by (simp add: getPostsWithOptions_number_query_def Let_def options_of_def limitCount_of_def
        answering_def truthy_def postsCollection_def POSTS_COLLECTION_def js_add_2_53)

text \<open>
  Claim C8. When the store fails the issued query with the error \<open>e\<close>, the call fails
  with \<open>e\<close> itself: no result is returned, and the store has been sent that one query
  and no other (no retry, no fallback query).
\<close>

theorem getPostsWithOptions_store_error:
  assumes "respond st (getPostsWithOptions_query options) = Inl e"
  shows "getPostsWithOptions options st =
           (Inl e, st\<lparr>issued := issued st @ [getPostsWithOptions_query options]\<rparr>)"
  using assms by (rule getPostsWithOptions_Inl)

theorem getPostsWithOptions_store_error_witness:
  "respond (answering (Inl ())) (getPostsWithOptions_query (options_of None)) = Inl ()
   \<and> fst (getPostsWithOptions (options_of None) (answering (Inl ()))) = Inl ()
   \<and> issued (snd (getPostsWithOptions (options_of None) (answering (Inl ()))))
       = [getPostsWithOptions_query (options_of None)]"
  using getPostsWithOptions_store_error [of "answering (Inl ())" "options_of None" "()"]
  by (simp add: answering_def)

text \<open>
  Claim C9. \<open>getPosts\<close> of \<open>posts.ts\<close> and \<open>getPosts\<close> of \<open>posts copy 1.ts\<close> are the same
  function of the store: they send the same query and, on the same answer, return the
  same list of objects (same documents, same properties, same order), or the same
  error.
\<close>

theorem getPosts_files_agree: "getPosts st = getPosts_copy1 st"
  by (simp add: getPosts_def getPosts_copy1_def postsCollection_def)

text \<open>
  Claim C10. Called with page size 0 on a store that answers the issued query with at
  least one document, the call sends a query whose bound is 1 and returns no items, a
  \<open>null\<close> cursor and \<open>hasMore = true\<close>; walking on from a first page with the returned
  cursor repeats the same call, so the walk never reaches a response with
  \<open>hasMore = false\<close>, whatever the fuel.
\<close>

lemma walk_zero_limit:
  assumes "opt_limitCount options = Some 0" and "opt_lastDoc options = None"
    and "respond st (getPostsWithOptions_query options) = Inr ds" and "ds \<noteq> []"
  shows "walk fuel options st = None"
  using assms
proof (induction fuel arbitrary: st)
  case 0
  then show ?case by simp
next
  case (Suc fuel)
  let ?st' = "st\<lparr>issued := issued st @ [getPostsWithOptions_query options]\<rparr>"
  have same: "options\<lparr>opt_lastDoc := None\<rparr> = options"
    using Suc.prems(2) by simp
  have page: "getPostsWithOptions options st =
                (Inr \<lparr>posts = [], lastDoc = None, hasMore = True\<rparr>, ?st')"
    using Suc.prems by (simp add: getPostsWithOptions_Inr Let_def limitCount_of_def js_slice0_def)
  have "walk fuel options ?st' = None"
    using Suc.prems by (intro Suc.IH) simp_all
  then show ?case
    using page same by simp
qed

theorem getPostsWithOptions_zero_page_size:
  assumes "opt_limitCount options = Some 0"
    and "respond st (getPostsWithOptions_query options) = Inr ds"
    and "ds \<noteq> []"
  shows "last (q_constraints (getPostsWithOptions_query options)) = Limit 1
       \<and> getPostsWithOptions options st =
           (Inr \<lparr>posts = [], lastDoc = None, hasMore = True\<rparr>,
            st\<lparr>issued := issued st @ [getPostsWithOptions_query options]\<rparr>)
       \<and> (opt_lastDoc options = None \<longrightarrow> (\<forall>fuel. walk fuel options st = None))"
proof -
  have "last (q_constraints (getPostsWithOptions_query options)) = Limit 1"
    using assms(1) by (simp add: getPostsWithOptions_query_def Let_def limitCount_of_def)
  moreover have "getPostsWithOptions options st =
           (Inr \<lparr>posts = [], lastDoc = None, hasMore = True\<rparr>,
            st\<lparr>issued := issued st @ [getPostsWithOptions_query options]\<rparr>)"
    using assms by (simp add: getPostsWithOptions_Inr Let_def limitCount_of_def js_slice0_def)
  moreover have "opt_lastDoc options = None \<longrightarrow> (\<forall>fuel. walk fuel options st = None)"
    using assms walk_zero_limit by blast
  ultimately show ?thesis by blast
qed

theorem getPostsWithOptions_zero_page_size_witness:
  "opt_limitCount (options_of (Some 0)) = Some 0
   \<and> respond (answering (Inr [doc_a])) (getPostsWithOptions_query (options_of (Some 0))) = Inr [doc_a]
   \<and> [doc_a] \<noteq> []
   \<and> opt_lastDoc (options_of (Some 0)) = None
   \<and> fst (getPostsWithOptions (options_of (Some 0)) (answering (Inr [doc_a])))
        = Inr \<lparr>posts = [], lastDoc = None, hasMore = True\<rparr>
   \<and> walk 7 (options_of (Some 0)) (answering (Inr [doc_a])) = None"
  using getPostsWithOptions_zero_page_size
          [of "options_of (Some 0)" "answering (Inr [doc_a])" "[doc_a]"]
  by (simp add: options_of_def answering_def)

section \<open>The shape of listing items\<close>

lemma getPostsWithOptions_post_item: "is_listing_item_of d (getPostsWithOptions_post d)"
  by (simp add: is_listing_item_of_def getPostsWithOptions_post_def listing_fields_def Let_def)

lemma subscribeToPostsRealtime_post_item: "is_listing_item_of d (subscribeToPostsRealtime_post d)"
  by (simp add: is_listing_item_of_def subscribeToPostsRealtime_post_def listing_fields_def Let_def)

lemma list_all2_map_item:
  "(\<And>d. P d (f d)) \<Longrightarrow> list_all2 P ds (map f ds)"
  by (simp add: list_all2_conv_all_nth)

text \<open>
  Claim C3, as amended. Every item returned by \<open>getPostsWithOptions\<close> and every item a
  \<open>subscribeToPostsRealtime\<close> listener hands to its callback is an object of exactly six
  properties, \<open>id\<close>, \<open>title\<close>, \<open>category\<close>, \<open>authorEmail\<close>, \<open>authorDisplayName\<close> and
  \<open>createdAt\<close>, where \<open>id\<close> is the identifier of the raw document and each other property
  is the raw document's field of that name; the items stand in the order of the
  documents they come from. (\<open>authorId\<close>, \<open>viewCount\<close> and \<open>thumbnailUrl\<close> are not
  carried.)
\<close>

theorem listing_items_have_six_fields:
  "(respond st (getPostsWithOptions_query options) = Inr ds \<longrightarrow>
      (\<exists>r st'. getPostsWithOptions options st = (Inr r, st')
         \<and> list_all2 is_listing_item_of (take (length (posts r)) ds) (posts r)))
   \<and> (\<exists>l. fs_listeners (snd (subscribeToPostsRealtime callback sopts fs)) = fs_listeners fs @ [l]
         \<and> (\<forall>snap. \<exists>items. l_onNext l snap = [(callback, items)]
               \<and> list_all2 is_listing_item_of snap items))"
proof (intro conjI impI)
  assume a: "respond st (getPostsWithOptions_query options) = Inr ds"
  let ?docs = "if int (length ds) > limitCount_of options
               then js_slice0 ds (limitCount_of options) else ds"
  have pre: "take (length ?docs) ds = ?docs"
    using js_slice0_take [of ds "limitCount_of options"] by simp
  have "list_all2 is_listing_item_of ?docs (map getPostsWithOptions_post ?docs)"
    by (rule list_all2_map_item) (rule getPostsWithOptions_post_item)
  then show "\<exists>r st'. getPostsWithOptions options st = (Inr r, st')
         \<and> list_all2 is_listing_item_of (take (length (posts r)) ds) (posts r)"
    using a pre by (simp add: getPostsWithOptions_Inr Let_def)
next
  let ?l = "\<lparr>l_handle = fs_next fs, l_query = subscribeToPostsRealtime_query sopts,
             l_onNext = (\<lambda>snapshot_docs. [(callback, map subscribeToPostsRealtime_post snapshot_docs)])\<rparr>"
  have "fs_listeners (snd (subscribeToPostsRealtime callback sopts fs)) = fs_listeners fs @ [?l]"
    by (simp add: subscribeToPostsRealtime_def onSnapshot_def deliver_def Let_def)
  moreover have "\<forall>snap. \<exists>items. l_onNext ?l snap = [(callback, items)]
               \<and> list_all2 is_listing_item_of snap items"
    by (simp add: list_all2_map_item subscribeToPostsRealtime_post_item)
  ultimately show "\<exists>l. fs_listeners (snd (subscribeToPostsRealtime callback sopts fs)) = fs_listeners fs @ [l]
         \<and> (\<forall>snap. \<exists>items. l_onNext l snap = [(callback, items)]
               \<and> list_all2 is_listing_item_of snap items)"
    by blast
qed

theorem listing_items_have_six_fields_witness:
  "respond (answering (Inr [doc_a])) (getPostsWithOptions_query (options_of None)) = Inr [doc_a]
   \<and> (\<exists>r st'. getPostsWithOptions (options_of None) (answering (Inr [doc_a])) = (Inr r, st')
         \<and> list_all2 is_listing_item_of (take (length (posts r)) [doc_a]) (posts r))"
proof -
  have h: "respond (answering (Inr [doc_a])) (getPostsWithOptions_query (options_of None)) = Inr [doc_a]"
    by (simp add: answering_def)
  from h listing_items_have_six_fields
          [of "answering (Inr [doc_a])" "options_of None" "[doc_a]" "''cb''" "subscribe_options_of None None" "fs_init []"]
  show ?thesis by blast
qed

text \<open>
  The claim C3 as first stated fails: for a post whose raw document has an \<open>authorId\<close>,
  the item returned by \<open>getPostsWithOptions\<close>, and the item delivered to a realtime
  callback, has no \<open>authorId\<close> property (nor \<open>viewCount\<close>, nor \<open>thumbnailUrl\<close>), so it is
  not the \<open>PostSummary\<close> of the document.
\<close>

theorem listing_items_lack_fields_counterexample:
  "fst (getPostsWithOptions (options_of None) (answering (Inr [doc_a])))
     = Inr \<lparr>posts = [[(''id'', JStr ''a''), (''title'', JStr ''Post a''), (''category'', JStr ''tech''),
                       (''authorEmail'', JStr ''u1@example.org''), (''authorDisplayName'', JNull),
                       (''createdAt'', JTimestamp 30)]],
            lastDoc = Some doc_a, hasMore = False\<rparr>
   \<and> js_get (doc_data doc_a) ''authorId'' = JStr ''u1''
   \<and> map_of [(''id'', JStr ''a''), (''title'', JStr ''Post a''), (''category'', JStr ''tech''),
              (''authorEmail'', JStr ''u1@example.org''), (''authorDisplayName'', JNull),
              (''createdAt'', JTimestamp 30)] ''authorId'' = None
   \<and> \<not> is_PostSummary_of doc_a
          [(''id'', JStr ''a''), (''title'', JStr ''Post a''), (''category'', JStr ''tech''),
           (''authorEmail'', JStr ''u1@example.org''), (''authorDisplayName'', JNull),
           (''createdAt'', JTimestamp 30)]
   \<and> fs_trace (snd (subscribeToPostsRealtime ''cb'' (subscribe_options_of None None) (fs_init [doc_a])))
     = [(0, ''cb'', [[(''id'', JStr ''a''), (''title'', JStr ''Post a''), (''category'', JStr ''tech''),
                       (''authorEmail'', JStr ''u1@example.org''), (''authorDisplayName'', JNull),
                       (''createdAt'', JTimestamp 30)]])]"
  by (simp add: getPostsWithOptions_def getDocs_def answering_def options_of_def limitCount_of_def
        Let_def getPostsWithOptions_post_def doc_a_def example_post_def js_get_def
        is_PostSummary_of_def PostSummary_fields_def
        subscribeToPostsRealtime_def onSnapshot_def deliver_def fs_init_def subscribe_options_of_def
        subscribeToPostsRealtime_query_def subscribeToPostsRealtime_post_def run_query_def
        postsCollection_def truthy_def)

section \<open>Realtime subscriptions\<close>

lemma deliveries_Nil: "deliveries docs [] = []"
  by (simp add: deliveries_def)

lemma deliveries_Cons:
  "deliveries docs (l # ls) =
     map (Pair (l_handle l)) (l_onNext l (run_query docs (l_query l))) @ deliveries docs ls"
  by (simp add: deliveries_def)

lemma foldl_deliver:
  "foldl (\<lambda>s l. deliver l s) s ls = s\<lparr>fs_trace := fs_trace s @ deliveries (fs_docs s) ls\<rparr>"
proof (induction ls arbitrary: s)
  case Nil
  show ?case by (simp add: deliveries_Nil)
next
  case (Cons l ls)
  show ?case
    using Cons.IH [of "deliver l s"] by (simp add: deliveries_Cons deliver_def)
qed

lemma deliveries_except:
  "filter (\<lambda>e. fst e \<noteq> h) (deliveries docs ls) =
     deliveries docs (filter (\<lambda>l. l_handle l \<noteq> h) ls)"
  by (induction ls) (simp_all add: deliveries_Nil deliveries_Cons filter_map comp_def)

lemma deliveries_of:
  "filter (\<lambda>e. fst e = h) (deliveries docs ls) =
     deliveries docs (filter (\<lambda>l. l_handle l = h) ls)"
  by (induction ls) (simp_all add: deliveries_Nil deliveries_Cons filter_map comp_def)

lemma store_write_eq:
  "store_write docs' fs =
     fs\<lparr>fs_docs := docs',
        fs_trace := fs_trace fs @ deliveries docs'
          (filter (\<lambda>l. run_query docs' (l_query l) \<noteq> run_query (fs_docs fs) (l_query l))
             (fs_listeners fs))\<rparr>"
  by (simp add: store_write_def foldl_deliver)

lemma subscribe_eq:
  "subscribeToPostsRealtime callback options fs =
     (fs_next fs,
      fs\<lparr>fs_listeners := fs_listeners fs @
            [\<lparr>l_handle = fs_next fs, l_query = subscribeToPostsRealtime_query options,
              l_onNext = (\<lambda>snap. [(callback, map subscribeToPostsRealtime_post snap)])\<rparr>],
         fs_next := Suc (fs_next fs),
         fs_trace := fs_trace fs @
            [(fs_next fs, callback,
              map subscribeToPostsRealtime_post
                (run_query (fs_docs fs) (subscribeToPostsRealtime_query options)))]\<rparr>)"
  by (simp add: subscribeToPostsRealtime_def onSnapshot_def deliver_def Let_def)

lemma handles_ok_step: "handles_ok fs \<Longrightarrow> handles_ok (step fs ev)"
proof (cases ev)
  case (Subscribe cb options)
  assume "handles_ok fs"
  then show ?thesis
    using Subscribe by (auto simp add: handles_ok_def subscribe_eq list_all_iff)
next
  case (Cancel k)
  assume "handles_ok fs"
  then show ?thesis
    using Cancel by (auto simp add: handles_ok_def unsubscribe_def list_all_iff)
next
  case (Write docs')
  assume "handles_ok fs"
  then show ?thesis
    using Write by (simp add: handles_ok_def store_write_eq)
qed

lemma next_mono_step: "fs_next fs \<le> fs_next (step fs ev)"
  by (cases ev) (simp_all add: subscribe_eq unsubscribe_def store_write_eq)

lemma filter_none:
  "list_all (\<lambda>l. l_handle l \<noteq> h) ls \<Longrightarrow> filter (\<lambda>l. Q l \<and> l_handle l = h) ls = []"
  by (auto simp add: list_all_iff filter_empty_conv)

lemma silenced_step:
  assumes "silenced h fs"
  shows "silenced h (step fs ev) \<and> calls_of h (step fs ev) = calls_of h fs"
proof (cases ev)
  case (Subscribe cb options)
  then show ?thesis
    using assms by (simp add: silenced_def subscribe_eq calls_of_def)
next
  case (Cancel k)
  then show ?thesis
    using assms by (simp add: silenced_def unsubscribe_def calls_of_def list_all_iff)
next
  case (Write docs')
  then show ?thesis
    using assms
    by (simp add: silenced_def store_write_eq calls_of_def deliveries_of filter_none deliveries_Nil)
qed

lemma silenced_run:
  "silenced h fs \<Longrightarrow> silenced h (run evs fs) \<and> calls_of h (run evs fs) = calls_of h fs"
  unfolding run_def
proof (induction evs arbitrary: fs)
  case Nil
  then show ?case by simp
next
  case (Cons ev evs)
  from silenced_step [OF Cons.prems, of ev]
  have s: "silenced h (step fs ev)" and c: "calls_of h (step fs ev) = calls_of h fs" by simp_all
  from Cons.IH [OF s] c show ?case by simp
qed

lemma same_but_step:
  assumes "same_but h fs' fs"
  shows "same_but h (step fs' ev) (step fs ev)"
proof (cases ev)
  case (Subscribe cb options)
  then show ?thesis
    using assms by (simp add: same_but_def subscribe_eq calls_except_def)
next
  case (Cancel k)
  then show ?thesis
    using assms
    by (auto simp add: same_but_def unsubscribe_def calls_except_def intro!: filter_cong)
next
  case (Write docs')
  let ?ch = "\<lambda>l. run_query docs' (l_query l) \<noteq> run_query (fs_docs fs) (l_query l)"
  have "filter (\<lambda>l. l_handle l \<noteq> h) (filter ?ch (filter (\<lambda>l. l_handle l \<noteq> h) (fs_listeners fs)))
        = filter (\<lambda>l. l_handle l \<noteq> h) (filter ?ch (fs_listeners fs))"
    by (auto intro!: filter_cong)
  then show ?thesis
    using assms Write
    by (simp add: same_but_def store_write_eq calls_except_def deliveries_except)
qed

lemma same_but_run:
  "same_but h fs' fs \<Longrightarrow> same_but h (run evs fs') (run evs fs)"
  unfolding run_def
proof (induction evs arbitrary: fs' fs)
  case Nil
  then show ?case by simp
next
  case (Cons ev evs)
  from Cons.IH [OF same_but_step [OF Cons.prems, of ev]] show ?case by simp
qed

lemma handles_ok_run: "handles_ok fs \<Longrightarrow> handles_ok (run evs fs)"
  unfolding run_def
  by (induction evs arbitrary: fs) (simp_all add: handles_ok_step)

lemma next_mono_run: "fs_next fs \<le> fs_next (run evs fs)"
  unfolding run_def
proof (induction evs arbitrary: fs)
  case Nil
  show ?case by simp
next
  case (Cons ev evs)
  have "fs_next fs \<le> fs_next (step fs ev)" by (rule next_mono_step)
  also have "\<dots> \<le> fs_next (foldl step (step fs ev) evs)" by (rule Cons.IH)
  finally show ?case by simp
qed

lemma ex_docs_simps:
  "doc_id doc_a = ''a''" "doc_id doc_b = ''b''" "doc_id doc_c = ''c''"
  "js_get (doc_data doc_a) ''category'' = JStr ''tech''"
  "js_get (doc_data doc_b) ''category'' = JStr ''tech''"
  "js_get (doc_data doc_c) ''category'' = JStr ''life''"
  "js_get (doc_data doc_a) ''createdAt'' = JTimestamp 30"
  "js_get (doc_data doc_b) ''createdAt'' = JTimestamp 20"
  "js_get (doc_data doc_c) ''createdAt'' = JTimestamp 10"
  by (simp_all add: doc_a_def doc_b_def doc_c_def example_post_def js_get_def)

lemma ex_run_all:
  "run_query [doc_a] (subscribeToPostsRealtime_query (subscribe_options_of None None)) = [doc_a]"
  "run_query [doc_a, doc_b] (subscribeToPostsRealtime_query (subscribe_options_of None None))
     = [doc_a, doc_b]"
  by (simp_all add: run_query_def subscribeToPostsRealtime_query_def subscribe_options_of_def
        truthy_def ex_docs_simps sort_rank_def Let_def)

text \<open>
  Claim C6. \<open>subscribeToPostsRealtime\<close> registers exactly one listener; its standing query
  is over the post collection, with an equality filter on \<open>category\<close> when a category is
  given (a non-empty tag) and not otherwise, then the descending sort on \<open>createdAt\<close>,
  then the bound \<open>limitCount\<close> itself (20 when not given), and nothing else: no cursor, no
  extra document. On registration the callback is invoked once with the normalized
  documents the query matches at that moment (possibly none). Every snapshot delivered
  to the listener afterwards makes exactly one more invocation, with that snapshot
  normalized; so a write that changes the matching set adds one invocation and a write
  that does not adds none.
\<close>

theorem subscribeToPostsRealtime_standing_query:
  "let q = \<lparr>q_collection = ''posts'',
            q_constraints =
              (case sub_category options of
                 None \<Rightarrow> []
               | Some c \<Rightarrow> if c = [] then [] else [WhereEq ''category'' (JStr c)])
              @ [OrderBy ''createdAt'' Desc,
                 Limit (case sub_limitCount options of None \<Rightarrow> 20 | Some n \<Rightarrow> n)]\<rparr>;
       h = fs_next fs;
       l = \<lparr>l_handle = h, l_query = q,
            l_onNext = (\<lambda>snap. [(callback, map subscribeToPostsRealtime_post snap)])\<rparr>;
       fs' = snd (subscribeToPostsRealtime callback options fs)
   in fst (subscribeToPostsRealtime callback options fs) = h
      \<and> fs_listeners fs' = fs_listeners fs @ [l]
      \<and> fs_trace fs' = fs_trace fs @
           [(h, callback, map subscribeToPostsRealtime_post (run_query (fs_docs fs) q))]
      \<and> fs_docs fs' = fs_docs fs
      \<and> (\<forall>s. fs_trace (deliver l s) = fs_trace s @
           [(h, callback, map subscribeToPostsRealtime_post (run_query (fs_docs s) q))])
      \<and> (handles_ok fs \<longrightarrow>
           (\<forall>docs'. calls_of h (store_write docs' fs')
                  = calls_of h fs'
                    @ (if run_query docs' q \<noteq> run_query (fs_docs fs) q
                       then [(callback, map subscribeToPostsRealtime_post (run_query docs' q))]
                       else [])))"
proof -
  let ?q = "\<lparr>q_collection = ''posts'',
            q_constraints =
              (case sub_category options of
                 None \<Rightarrow> []
               | Some c \<Rightarrow> if c = [] then [] else [WhereEq ''category'' (JStr c)])
              @ [OrderBy ''createdAt'' Desc,
                 Limit (case sub_limitCount options of None \<Rightarrow> 20 | Some n \<Rightarrow> n)]\<rparr>"
  have qry: "subscribeToPostsRealtime_query options = ?q"
    by (simp add: subscribeToPostsRealtime_query_def Let_def truthy_def postsCollection_def
          POSTS_COLLECTION_def split: option.splits)
  have wr: "calls_of (fs_next fs) (store_write docs' (snd (subscribeToPostsRealtime callback options fs)))
                  = calls_of (fs_next fs) (snd (subscribeToPostsRealtime callback options fs))
                    @ (if run_query docs' ?q \<noteq> run_query (fs_docs fs) ?q
                       then [(callback, map subscribeToPostsRealtime_post (run_query docs' ?q))]
                       else [])"
    if ok: "handles_ok fs" for docs'
  proof -
    from ok have other: "list_all (\<lambda>l. l_handle l \<noteq> fs_next fs) (fs_listeners fs)"
      by (auto simp add: handles_ok_def list_all_iff)
    show ?thesis
      unfolding qry [symmetric]
      using filter_none [OF other]
      by (simp add: subscribe_eq store_write_eq calls_of_def deliveries_of deliveries_Nil
            deliveries_Cons)
  qed
  show ?thesis
    unfolding Let_def qry [symmetric]
    using wr [unfolded qry [symmetric]]
    by (simp add: subscribe_eq deliver_def)
qed

theorem subscribeToPostsRealtime_standing_query_witness:
  "handles_ok (fs_init [doc_c, doc_a, doc_b])
   \<and> fst (subscribeToPostsRealtime ''cb'' (subscribe_options_of (Some ''tech'') None)
              (fs_init [doc_c, doc_a, doc_b])) = 0
   \<and> fs_trace (snd (subscribeToPostsRealtime ''cb'' (subscribe_options_of (Some ''tech'') None)
              (fs_init [doc_c, doc_a, doc_b])))
       = [(0, ''cb'', map subscribeToPostsRealtime_post [doc_a, doc_b])]
   \<and> calls_of 0 (store_write [doc_c, doc_a]
          (snd (subscribeToPostsRealtime ''cb'' (subscribe_options_of (Some ''tech'') None)
                  (fs_init [doc_c, doc_a, doc_b]))))
       = [(''cb'', map subscribeToPostsRealtime_post [doc_a, doc_b]),
          (''cb'', map subscribeToPostsRealtime_post [doc_a])]"
proof -
  let ?o = "subscribe_options_of (Some ''tech'') None"
  let ?fs = "fs_init [doc_c, doc_a, doc_b]"
  let ?q = "\<lparr>q_collection = ''posts'',
             q_constraints = [WhereEq ''category'' (JStr ''tech''),
                              OrderBy ''createdAt'' Desc, Limit 20]\<rparr>"
  have ok: "handles_ok ?fs"
    by (simp add: handles_ok_def fs_init_def)
  have r1: "run_query [doc_c, doc_a, doc_b] ?q = [doc_a, doc_b]"
    by (simp add: run_query_def ex_docs_simps sort_rank_def)
  have r2: "run_query [doc_c, doc_a] ?q = [doc_a]"
    by (simp add: run_query_def ex_docs_simps sort_rank_def)
  have sel: "fs_next ?fs = 0" "fs_docs ?fs = [doc_c, doc_a, doc_b]" "fs_trace ?fs = []"
    by (simp_all add: fs_init_def)
  have opts: "sub_category ?o = Some ''tech''" "sub_limitCount ?o = None"
    by (simp_all add: subscribe_options_of_def)
  from subscribeToPostsRealtime_standing_query
         [where callback = "''cb''" and options = ?o and fs = ?fs] ok
  show ?thesis
    by (simp add: Let_def sel opts r1 r2 calls_of_def)
qed

text \<open>
  Claim C7. Let \<open>h\<close> be the cancellation handle that \<open>subscribeToPostsRealtime\<close> returned.
  After any history, once \<open>h\<close> is cancelled, no later history (writes, new subscriptions,
  other cancellations) adds a callback invocation for subscription \<open>h\<close>; and for every
  other subscription the invocations are the same, and in the same order, as if \<open>h\<close> had
  not been cancelled.
\<close>

theorem cancel_is_final_and_local:
  assumes "subscribeToPostsRealtime callback options fs = (h, fs1)"
  shows "calls_of h (run later (unsubscribe h (run earlier fs1))) = calls_of h (run earlier fs1)
       \<and> calls_except h (run later (unsubscribe h (run earlier fs1)))
           = calls_except h (run later (run earlier fs1))"
proof -
  let ?fs2 = "run earlier fs1"
  have h: "h < fs_next fs1"
    using assms by (auto simp add: subscribe_eq)
  have "fs_next fs1 \<le> fs_next ?fs2" by (rule next_mono_run)
  with h have h2: "h < fs_next ?fs2" by simp
  have sil: "silenced h (unsubscribe h ?fs2)"
    using h2 by (simp add: silenced_def unsubscribe_def list_all_iff)
  have c0: "calls_of h (unsubscribe h ?fs2) = calls_of h ?fs2"
    by (simp add: calls_of_def unsubscribe_def)
  have sb: "same_but h (unsubscribe h ?fs2) ?fs2"
    using h2 by (simp add: same_but_def unsubscribe_def calls_except_def)
  from silenced_run [OF sil, of later] c0 same_but_run [OF sb, of later]
  show ?thesis by (simp add: same_but_def)
qed


theorem cancel_is_final_and_local_witness:
  "subscribeToPostsRealtime ''one'' (subscribe_options_of None None) (fs_init [doc_a])
     = (0, snd (subscribeToPostsRealtime ''one'' (subscribe_options_of None None) (fs_init [doc_a])))
   \<and> calls_of 0
        (run [Write [doc_a, doc_b]]
           (unsubscribe 0
              (run [Subscribe ''two'' (subscribe_options_of None None)]
                 (snd (subscribeToPostsRealtime ''one'' (subscribe_options_of None None)
                         (fs_init [doc_a]))))))
      = [(''one'', map subscribeToPostsRealtime_post [doc_a])]
   \<and> calls_except 0
        (run [Write [doc_a, doc_b]]
           (unsubscribe 0
              (run [Subscribe ''two'' (subscribe_options_of None None)]
                 (snd (subscribeToPostsRealtime ''one'' (subscribe_options_of None None)
                         (fs_init [doc_a]))))))
      = [(1, ''two'', map subscribeToPostsRealtime_post [doc_a]),
         (1, ''two'', map subscribeToPostsRealtime_post [doc_a, doc_b])]"
proof -
  let ?o = "subscribe_options_of None None"
  let ?fs1 = "snd (subscribeToPostsRealtime ''one'' ?o (fs_init [doc_a]))"
  have h: "subscribeToPostsRealtime ''one'' ?o (fs_init [doc_a]) = (0, ?fs1)"
    by (simp add: subscribe_eq fs_init_def)
  have before: "calls_of 0 (run [Subscribe ''two'' ?o] ?fs1)
                  = [(''one'', map subscribeToPostsRealtime_post [doc_a])]"
    by (simp add: run_def subscribe_eq fs_init_def calls_of_def ex_run_all)
  have uncancelled: "calls_except 0 (run [Write [doc_a, doc_b]] (run [Subscribe ''two'' ?o] ?fs1))
      = [(1, ''two'', map subscribeToPostsRealtime_post [doc_a]),
         (1, ''two'', map subscribeToPostsRealtime_post [doc_a, doc_b])]"
    by (simp add: run_def subscribe_eq fs_init_def calls_except_def store_write_eq ex_run_all
          deliveries_Cons deliveries_Nil)
  from h before uncancelled
    cancel_is_final_and_local [OF h, of "[Write [doc_a, doc_b]]" "[Subscribe ''two'' ?o]"]
  show ?thesis by simp
qed

section \<open>Walking all pages\<close>

lemma run_query_page:
  "run_query coll (getPostsWithOptions_query options) =
     take (nat (limitCount_of options + 1))
       (resume (opt_lastDoc options) (matching_docs coll (opt_category options)))"
proof -
  have srt: "(\<lambda>d. sort_rank (js_get (doc_data d) ''createdAt'')) = createdAt_rank"
    by (simp add: createdAt_rank_def fun_eq_iff)
  have flt: "filter (matches (opt_category options)) coll =
               (case opt_category options of
                  None \<Rightarrow> coll
                | Some c \<Rightarrow> if c = [] then coll
                           else filter (\<lambda>d. js_get (doc_data d) ''category'' = JStr c) coll)"
    by (auto simp add: matches_def split: option.splits intro!: filter_cong)
  show ?thesis
    unfolding matching_docs_def flt
    by (simp add: run_query_def getPostsWithOptions_query_def Let_def truthy_def
          resume_def srt split: option.splits)
qed

lemma resume_after_last:
  assumes "distinct (map doc_id (pre @ rest))" and "pre \<noteq> []"
  shows "resume (Some (last pre)) (pre @ rest) = rest"
proof -
  from assms(2) obtain ys c where pre: "pre = ys @ [c]"
    by (metis append_butlast_last_id)
  have skip: "\<And>x. x \<in> set ys \<Longrightarrow> doc_id x \<noteq> doc_id c"
    using assms(1) unfolding pre by (auto simp add: image_iff)
  have "dropWhile (\<lambda>d. doc_id d \<noteq> doc_id c) (ys @ c # rest) = dropWhile (\<lambda>d. doc_id d \<noteq> doc_id c) (c # rest)"
    using skip by (rule dropWhile_append2)
  then show ?thesis
    by (simp add: resume_def pre)
qed

lemma matching_docs_distinct:
  "distinct (map doc_id coll) \<Longrightarrow> distinct (map doc_id (matching_docs coll category))"
  by (auto simp add: matching_docs_def distinct_map intro: inj_on_subset)

lemma matching_docs_set:
  "set (matching_docs coll category) = {d \<in> set coll. matches category d}"
  by (auto simp add: matching_docs_def)

lemma matching_docs_sorted:
  "sorted_wrt (\<lambda>a b. createdAt_rank b \<le> createdAt_rank a) (matching_docs coll category)"
proof -
  have "sorted (map createdAt_rank (sort_key createdAt_rank (filter (matches category) coll)))"
    by (rule sorted_sort_key)
  then show ?thesis
    by (simp add: matching_docs_def sorted_wrt_rev sorted_map)
qed

lemma matching_docs_length: "length (matching_docs coll category) \<le> length coll"
  by (simp add: matching_docs_def)

lemma walk_covers_rest:
  assumes "distinct (map doc_id (pre @ rest))"
    and "matching_docs coll (opt_category options) = pre @ rest"
    and "opt_lastDoc options = (if pre = [] then None else Some (last pre))"
    and "1 \<le> limitCount_of options"
    and "respond st = (\<lambda>q. Inr (run_query coll q))"
    and "length rest < fuel"
  shows "\<exists>pages. walk fuel options st = Some (Inr pages)
           \<and> concat (map posts pages) = map getPostsWithOptions_post rest
           \<and> list_all hasMore (butlast pages) \<and> \<not> hasMore (last pages)"
  using assms
proof (induction fuel arbitrary: pre rest options st)
  case 0
  then show ?case by simp
next
  case (Suc fuel)
  let ?L = "nat (limitCount_of options)"
  let ?st' = "st\<lparr>issued := issued st @ [getPostsWithOptions_query options]\<rparr>"
  have Lpos: "0 < ?L" and Lint: "int ?L = limitCount_of options"
    using Suc.prems(4) by simp_all
  have res: "resume (opt_lastDoc options) (pre @ rest) = rest"
  proof (cases "pre = []")
    case True
    then show ?thesis using Suc.prems(3) by (simp add: resume_def)
  next
    case False
    then show ?thesis
      using Suc.prems(3) resume_after_last [OF Suc.prems(1) False] by simp
  qed
  have ans: "respond st (getPostsWithOptions_query options) = Inr (take (Suc ?L) rest)"
    using Suc.prems(2,4,5) res by (simp add: run_query_page nat_add_distrib)
  show ?case
  proof (cases "?L < length rest")
    case True
    let ?page = "\<lparr>posts = map getPostsWithOptions_post (take ?L rest),
                  lastDoc = Some (last (take ?L rest)), hasMore = True\<rparr>"
    let ?options' = "options\<lparr>opt_lastDoc := Some (last (take ?L rest))\<rparr>"
    have ne: "take ?L rest \<noteq> []"
      using True Lpos by auto
    have tk: "take ?L (take (Suc ?L) rest) = take ?L rest"
      by (simp add: min_def)
    have len: "length (take (Suc ?L) rest) = Suc ?L"
      using True by simp
    have more: "limitCount_of options < int (length (take (Suc ?L) rest))"
      unfolding len using Lint by linarith
    have sl: "js_slice0 (take (Suc ?L) rest) (limitCount_of options) = take ?L rest"
      using Suc.prems(4) tk by (simp add: js_slice0_nonneg)
    have page: "getPostsWithOptions options st = (Inr ?page, ?st')"
      using ne more sl
      by (simp add: getPostsWithOptions_Inr [OF ans] Let_def)
    have d': "distinct (map doc_id ((pre @ take ?L rest) @ drop ?L rest))"
      using Suc.prems(1) by simp
    have m': "matching_docs coll (opt_category ?options') = (pre @ take ?L rest) @ drop ?L rest"
      using Suc.prems(2) by simp
    have c': "opt_lastDoc ?options' =
               (if pre @ take ?L rest = [] then None else Some (last (pre @ take ?L rest)))"
      using ne by simp
    have l': "1 \<le> limitCount_of ?options'"
      using Suc.prems(4) by (simp add: limitCount_of_def)
    have r': "respond ?st' = (\<lambda>q. Inr (run_query coll q))"
      using Suc.prems(5) by simp
    have f': "length (drop ?L rest) < fuel"
      using Suc.prems(6) True Lpos by simp
    from Suc.IH [OF d' m' c' l' r' f']
    obtain pages where w: "walk fuel ?options' ?st' = Some (Inr pages)"
      and cc: "concat (map posts pages) = map getPostsWithOptions_post (drop ?L rest)"
      and hm: "list_all hasMore (butlast pages)" "\<not> hasMore (last pages)"
      by blast
    have pne: "pages \<noteq> []"
      using w by (cases fuel) (auto split: prod.splits sum.splits if_splits option.splits)
    have "walk (Suc fuel) options st = Some (Inr (?page # pages))"
      using page w by simp
    moreover have "concat (map posts (?page # pages)) = map getPostsWithOptions_post rest"
      using cc by (simp add: map_append [symmetric] del: map_append)
    moreover have "list_all hasMore (butlast (?page # pages)) \<and> \<not> hasMore (last (?page # pages))"
      using hm pne by simp
    ultimately show ?thesis by blast
  next
    case False
    let ?page = "\<lparr>posts = map getPostsWithOptions_post rest,
                  lastDoc = (if rest = [] then None else Some (last rest)), hasMore = False\<rparr>"
    have all: "take (Suc ?L) rest = rest"
      using False by simp
    have nomore: "\<not> limitCount_of options < int (length rest)"
      using False Lint by linarith
    have page: "getPostsWithOptions options st = (Inr ?page, ?st')"
      using nomore
      by (simp add: getPostsWithOptions_Inr [OF ans] all Let_def)
    then have "walk (Suc fuel) options st = Some (Inr [?page])"
      by simp
    then show ?thesis by simp
  qed
qed

lemma ex_matching: "matching_docs [doc_c, doc_a, doc_b] None = [doc_a, doc_b, doc_c]"
  by (simp add: matching_docs_def matches_def createdAt_rank_def sort_rank_def ex_docs_simps)

lemma ex_walk:
  "walk 4 (options_of (Some 2)) (fixed_store [doc_c, doc_a, doc_b] :: unit store) =
     Some (Inr [\<lparr>posts = map getPostsWithOptions_post [doc_a, doc_b], lastDoc = Some doc_b,
                  hasMore = True\<rparr>,
                \<lparr>posts = map getPostsWithOptions_post [doc_c], lastDoc = Some doc_c,
                  hasMore = False\<rparr>])"
proof -
  let ?st = "fixed_store [doc_c, doc_a, doc_b] :: unit store"
  let ?o1 = "options_of (Some 2)"
  let ?o2 = "?o1\<lparr>opt_lastDoc := Some doc_b\<rparr>"
  let ?st1 = "?st\<lparr>issued := issued ?st @ [getPostsWithOptions_query ?o1]\<rparr>"
  have a1: "respond ?st (getPostsWithOptions_query ?o1) = Inr [doc_a, doc_b, doc_c]"
    by (simp add: fixed_store_def run_query_page resume_def ex_matching options_of_def
          limitCount_of_def)
  have a2: "respond ?st1 (getPostsWithOptions_query ?o2) = Inr [doc_c]"
    by (simp add: fixed_store_def run_query_page resume_def ex_matching options_of_def
          limitCount_of_def ex_docs_simps)
  have p1: "getPostsWithOptions ?o1 ?st =
              (Inr \<lparr>posts = map getPostsWithOptions_post [doc_a, doc_b], lastDoc = Some doc_b,
                  hasMore = True\<rparr>, ?st1)"
    by (subst getPostsWithOptions_Inr [OF a1])
       (simp add: Let_def limitCount_of_def options_of_def js_slice0_def)
  have p2: "getPostsWithOptions ?o2 ?st1 =
              (Inr \<lparr>posts = map getPostsWithOptions_post [doc_c], lastDoc = Some doc_c,
                  hasMore = False\<rparr>,
               ?st1\<lparr>issued := issued ?st1 @ [getPostsWithOptions_query ?o2]\<rparr>)"
    by (subst getPostsWithOptions_Inr [OF a2])
       (simp add: Let_def limitCount_of_def options_of_def)
  have w: "walk (Suc (Suc (Suc (Suc 0)))) ?o1 ?st =
     Some (Inr [\<lparr>posts = map getPostsWithOptions_post [doc_a, doc_b], lastDoc = Some doc_b,
                  hasMore = True\<rparr>,
                \<lparr>posts = map getPostsWithOptions_post [doc_c], lastDoc = Some doc_c,
                  hasMore = False\<rparr>])"
    by (simp add: p1 p2)
  have four: "(4::nat) = Suc (Suc (Suc (Suc 0)))"
    by simp
  show ?thesis
    unfolding four by (rule w)
qed

text \<open>
  Claim C2. Over a fixed post collection with distinct document identifiers and no
  store failures, with a page size of at least 1, the walk that starts without a
  cursor and feeds every response's \<open>lastDoc\<close> into the next call ends (with more fuel
  than there are documents), every page but the last has \<open>hasMore\<close>, the last has not,
  and the items of the pages, taken together in order, are the normalized documents of
  the matching set: every document of the collection that passes the category
  filter, each exactly once, newest first.
\<close>

theorem walk_visits_every_post_once:
  assumes "distinct (map doc_id coll)"
    and "1 \<le> limitCount_of options"
    and "opt_lastDoc options = None"
    and "length coll < fuel"
  shows "\<exists>pages. walk fuel options (fixed_store coll) = Some (Inr pages)
           \<and> concat (map posts pages)
                = map getPostsWithOptions_post (matching_docs coll (opt_category options))
           \<and> list_all hasMore (butlast pages) \<and> \<not> hasMore (last pages)
           \<and> distinct (map doc_id (matching_docs coll (opt_category options)))
           \<and> set (matching_docs coll (opt_category options))
                = {d \<in> set coll. matches (opt_category options) d}
           \<and> sorted_wrt (\<lambda>a b. createdAt_rank b \<le> createdAt_rank a)
                (matching_docs coll (opt_category options))"
proof -
  let ?M = "matching_docs coll (opt_category options)"
  have d: "distinct (map doc_id ([] @ ?M))"
    using assms(1) by (simp add: matching_docs_distinct)
  have m: "matching_docs coll (opt_category options) = [] @ ?M" by simp
  have c: "opt_lastDoc options = (if [] = ([]::rawdoc list) then None else Some (last []))"
    using assms(3) by simp
  have r: "respond (fixed_store coll) = (\<lambda>q. Inr (run_query coll q))"
    by (simp add: fixed_store_def)
  have f: "length ?M < fuel"
    using assms(4) matching_docs_length [of coll "opt_category options"] by simp
  from walk_covers_rest [OF d m c assms(2) r f] d
    matching_docs_set [of coll "opt_category options"]
    matching_docs_sorted [of coll "opt_category options"]
  show ?thesis by auto
qed


theorem walk_visits_every_post_once_witness:
  "distinct (map doc_id [doc_c, doc_a, doc_b])
   \<and> 1 \<le> limitCount_of (options_of (Some 2))
   \<and> opt_lastDoc (options_of (Some 2)) = None
   \<and> length [doc_c, doc_a, doc_b] < 4
   \<and> walk 4 (options_of (Some 2)) (fixed_store [doc_c, doc_a, doc_b] :: unit store) =
       Some (Inr [\<lparr>posts = map getPostsWithOptions_post [doc_a, doc_b], lastDoc = Some doc_b,
                    hasMore = True\<rparr>,
                  \<lparr>posts = map getPostsWithOptions_post [doc_c], lastDoc = Some doc_c,
                    hasMore = False\<rparr>])
   \<and> (\<exists>pages. walk 4 (options_of (Some 2)) (fixed_store [doc_c, doc_a, doc_b] :: unit store)
                  = Some (Inr pages)
          \<and> concat (map posts pages) = map getPostsWithOptions_post [doc_a, doc_b, doc_c])"
proof -
  have h1: "distinct (map doc_id [doc_c, doc_a, doc_b])"
    by (simp add: ex_docs_simps)
  have h2: "1 \<le> limitCount_of (options_of (Some 2))"
    by (simp add: limitCount_of_def options_of_def)
  have h3: "opt_lastDoc (options_of (Some 2)) = None"
    by (simp add: options_of_def)
  have h4: "length [doc_c, doc_a, doc_b] < 4"
    by simp
  have m: "matching_docs [doc_c, doc_a, doc_b] (opt_category (options_of (Some 2)))
             = [doc_a, doc_b, doc_c]"
    by (simp add: options_of_def ex_matching)
  from walk_visits_every_post_once [OF h1 h2 h3 h4, where 'a = unit]
  have "\<exists>pages. walk 4 (options_of (Some 2)) (fixed_store [doc_c, doc_a, doc_b] :: unit store)
                  = Some (Inr pages)
          \<and> concat (map posts pages) = map getPostsWithOptions_post [doc_a, doc_b, doc_c]"
    unfolding m by blast
  with h1 h2 h3 h4 ex_walk show ?thesis by blast
qed

end
